theory Spec2Isabelle
  imports Main "HOL-Library.Word" "HOL-Library.Multiset"
begin

section \<open>Data model\<close>

text \<open>
  \<^verbatim>\<open>cv2.imread(image_path)\<close> with its default flag yields either \<^verbatim>\<open>None\<close> or an array of
  shape \<open>(height, width, 3)\<close> and dtype \<^verbatim>\<open>uint8\<close>. A pixel is the triple of its three
  channel bytes, in the order of the last axis; an image carries its shape and its rows.
  The mask is the \<^verbatim>\<open>uint8\<close> array of shape \<open>(height, width)\<close> that the function allocates.
\<close>

type_synonym pixel = "8 word \<times> 8 word \<times> 8 word"

record image =
  height :: nat
  width :: nat
  pixels :: "pixel list list"

type_synonym mask = "8 word list list"

text \<open>The arrays numpy can hold: as many rows as the shape says, each of the same width.\<close>

definition wf_image :: "image \<Rightarrow> bool" where
  "wf_image im \<longleftrightarrow>
     length (pixels im) = height im \<and> (\<forall>row \<in> set (pixels im). length row = width im)"

text \<open>
  The exceptions the model distinguishes. All of them are instances of Python's
  \<^verbatim>\<open>Exception\<close>, which is what the handler of \<^verbatim>\<open>process_image\<close> catches; the
  asynchronous \<^verbatim>\<open>KeyboardInterrupt\<close> and \<^verbatim>\<open>SystemExit\<close>, which are not, have no
  counterpart here.
\<close>

datatype exn = IndexError | FileExistsError | FileNotFoundError | OtherError string

section \<open>The mask loop of \<^verbatim>\<open>process_image\<close>\<close>

text \<open>\<^verbatim>\<open>np.zeros(image.shape[:2], dtype=np.uint8)\<close>\<close>

definition zeros :: "nat \<Rightarrow> nat \<Rightarrow> mask" where
  "zeros h w = replicate h (replicate w 0)"

text \<open>\<^verbatim>\<open>image[i, j, c]\<close>: numpy raises \<^verbatim>\<open>IndexError\<close> for an index outside the array.\<close>

definition getitem :: "image \<Rightarrow> nat \<Rightarrow> nat \<Rightarrow> nat \<Rightarrow> exn + 8 word" where
  "getitem im i j c =
     (if i < length (pixels im) \<and> j < length (pixels im ! i) \<and> c < 3
      then (case pixels im ! i ! j of
              (c0, c1, c2) \<Rightarrow> Inr (if c = 0 then c0 else if c = 1 then c1 else c2))
      else Inl IndexError)"

text \<open>
  The condition of the \<^verbatim>\<open>if\<close>, with the short-circuit of \<^verbatim>\<open>and\<close>:
  \<^verbatim>\<open>image[i, j, 0] > 200 and image[i, j, 1] > 200 and image[i, j, 2] > 200\<close>.
  The comparison of a \<^verbatim>\<open>uint8\<close> with 200 is unsigned, as the order of words is.
\<close>

definition all_above :: "image \<Rightarrow> nat \<Rightarrow> nat \<Rightarrow> exn + bool" where
  "all_above im i j =
     (case getitem im i j 0 of
        Inl e \<Rightarrow> Inl e
      | Inr c0 \<Rightarrow>
          if \<not> 200 < c0 then Inr False
          else (case getitem im i j 1 of
                  Inl e \<Rightarrow> Inl e
                | Inr c1 \<Rightarrow>
                    if \<not> 200 < c1 then Inr False
                    else (case getitem im i j 2 of
                            Inl e \<Rightarrow> Inl e
                          | Inr c2 \<Rightarrow> Inr (200 < c2))))"

text \<open>\<^verbatim>\<open>mask[i, j] = v\<close>\<close>

definition setitem :: "mask \<Rightarrow> nat \<Rightarrow> nat \<Rightarrow> 8 word \<Rightarrow> mask" where
  "setitem m i j v = m[i := (m ! i)[j := v]]"

text \<open>\<^verbatim>\<open>for j in range(image.shape[1])\<close>, the list being the indices still to visit.\<close>

fun inner_loop :: "image \<Rightarrow> nat \<Rightarrow> nat list \<Rightarrow> mask \<Rightarrow> exn + mask" where
  "inner_loop im i [] m = Inr m"
| "inner_loop im i (j # js) m =
     (case all_above im i j of
        Inl e \<Rightarrow> Inl e
      | Inr b \<Rightarrow> inner_loop im i js (if b then setitem m i j 255 else m))"

text \<open>\<^verbatim>\<open>for i in range(image.shape[0])\<close>\<close>

fun outer_loop :: "image \<Rightarrow> nat list \<Rightarrow> mask \<Rightarrow> exn + mask" where
  "outer_loop im [] m = Inr m"
| "outer_loop im (i # is) m =
     (case inner_loop im i [0..<width im] m of
        Inl e \<Rightarrow> Inl e
      | Inr m' \<Rightarrow> outer_loop im is m')"

definition build_mask :: "image \<Rightarrow> exn + mask" where
  "build_mask im = outer_loop im [0..<height im] (zeros (height im) (width im))"

text \<open>
  \<^verbatim>\<open>np.sum(mask == 255)\<close>. numpy returns a 64-bit integer; the number of elements of an
  array is below \<open>2 ^ 63\<close>, so the count is modelled as an integer without wrap-around.
\<close>

definition count_on :: "mask \<Rightarrow> int" where
  "count_on m = (\<Sum>row\<leftarrow>m. int (length (filter (\<lambda>v. v = 255) row)))"

text \<open>What the loop decides at one pixel, as a predicate and as the byte it leaves.\<close>

definition bright :: "pixel \<Rightarrow> bool" where
  "bright p = (case p of (c0, c1, c2) \<Rightarrow> 200 < c0 \<and> 200 < c1 \<and> 200 < c2)"

definition mask_value :: "pixel \<Rightarrow> 8 word" where
  "mask_value p = (if bright p then 255 else 0)"

section \<open>Collaborators, shared state and interleaving\<close>

text \<open>
  The file system is shared by the worker threads, and so is the log. The file system is
  kept abstract (type \<open>'w\<close>); the image and file-system functions that the program calls
  are parameters, collected in a record. \<^verbatim>\<open>cv2.imread\<close> either raises, or returns
  \<^verbatim>\<open>None\<close>, or returns an array; the source files are taken not to change during a run,
  so what it returns depends on the path alone. \<^verbatim>\<open>os.makedirs\<close> may raise and may change
  the file system; \<^verbatim>\<open>cv2.imwrite\<close> may raise, or return whether it wrote the file.
  \<^verbatim>\<open>os.path.join\<close> depends on the platform and is a parameter as well.
\<close>

datatype log_entry =
    Warning_failed_to_read string
  | Info_mask_pixels string int
  | Error_processing string exn
  | Info_saved string
  | Info_total int

record 'w state =
  fs :: 'w
  logged :: "log_entry list"

record 'w env =
  imread :: "string \<Rightarrow> exn + image option"
  path_exists :: "'w \<Rightarrow> string \<Rightarrow> bool"
  makedirs :: "'w \<Rightarrow> string \<Rightarrow> exn option \<times> 'w"
  imwrite :: "'w \<Rightarrow> string \<Rightarrow> mask \<Rightarrow> (exn + bool) \<times> 'w"
  path_join :: "string \<Rightarrow> string \<Rightarrow> string"

definition log_line :: "log_entry \<Rightarrow> 'w state \<Rightarrow> 'w state" where
  "log_line l s = s\<lparr>logged := logged s @ [l]\<rparr>"

text \<open>
  A function run by a worker thread is a sequence of atomic actions on the shared state,
  one for each call that reads or writes it; between two of them other threads may run.
  \<open>Done r\<close> is the finished call with its outcome \<open>r\<close>; \<open>Step f\<close> performs \<open>f\<close> on
  the current state and continues with the task that \<open>f\<close> returns. An outcome of type
  \<open>exn + 'a\<close> is either an exception leaving the function (\<open>Inl\<close>) or a returned value.
\<close>

datatype ('s, 'a) task = Done 'a | Step "'s \<Rightarrow> 's \<times> ('s, 'a) task"

text \<open>Running a task alone, with no other thread in between.\<close>

primrec run :: "('s, 'a) task \<Rightarrow> 's \<Rightarrow> 's \<times> 'a" where
  "run (Done r) = (\<lambda>s. (s, r))"
| "run (Step f) = (\<lambda>s. case map_prod id run (f s) of (s', k) \<Rightarrow> k s')"

text \<open>
  \<^verbatim>\<open>try: body except Exception as e: handler\<close>: an exception that leaves the body
  starts the handler; a value returned by the body is returned.
\<close>

primrec try_except ::
  "('s, exn + 'a) task \<Rightarrow> (exn \<Rightarrow> ('s, exn + 'a) task) \<Rightarrow> ('s, exn + 'a) task" where
  "try_except (Done r) h = (case r of Inl e \<Rightarrow> h e | Inr v \<Rightarrow> Done (Inr v))"
| "try_except (Step f) h = Step (\<lambda>s. map_prod id (\<lambda>t. try_except t h) (f s))"

section \<open>\<^verbatim>\<open>process_image\<close>\<close>

text \<open>\<^verbatim>\<open>str.split(sep)\<close> for a separator of one character: the fields between its occurrences.\<close>

fun str_split :: "char \<Rightarrow> string \<Rightarrow> string list" where
  "str_split c [] = [[]]"
| "str_split c (x # xs) =
     (if x = c then [] # str_split c xs
      else (case str_split c xs of
              [] \<Rightarrow> [[x]]
            | field # rest \<Rightarrow> (x # field) # rest))"

text \<open>
  \<^verbatim>\<open>os.path.join(output_dir, image_path.split('\\')[-1].split('.')[0] + "_mask.png")\<close>;
  the separator of the first split is the backslash, character \<open>0x5C\<close>.
\<close>

definition mask_filename :: "(string \<Rightarrow> string \<Rightarrow> string) \<Rightarrow> string \<Rightarrow> string \<Rightarrow> string" where
  "mask_filename join output_dir image_path =
     join output_dir
       (hd (str_split CHR ''.'' (last (str_split (CHR 0x5C) image_path))) @ ''_mask.png'')"

type_synonym result = "int \<times> string option"

text \<open>Lines 62 to 74: the file name, the write, the count, the log line, the return.\<close>

definition save_and_count ::
  "'w env \<Rightarrow> string \<Rightarrow> string \<Rightarrow> mask \<Rightarrow> ('w state, exn + result) task" where
  "save_and_count env image_path output_dir m =
     (let filename = mask_filename (path_join env) output_dir image_path in
      Step (\<lambda>s. case imwrite env (fs s) filename m of
                   (Inl e, w) \<Rightarrow> (s\<lparr>fs := w\<rparr>, Done (Inl e))
                 | (Inr written, w) \<Rightarrow>
                     (s\<lparr>fs := w\<rparr>,
                      let mask_count = count_on m in
                      Step (\<lambda>s. (log_line (Info_mask_pixels image_path mask_count) s,
                                 Done (Inr (mask_count, Some filename)))))))"

text \<open>The body of the \<^verbatim>\<open>try\<close>, lines 41 to 74.\<close>

definition process_image_body ::
  "'w env \<Rightarrow> string \<Rightarrow> string \<Rightarrow> ('w state, exn + result) task" where
  "process_image_body env image_path output_dir =
     Step (\<lambda>s.
       (s, case imread env image_path of
             Inl e \<Rightarrow> Done (Inl e)
           | Inr None \<Rightarrow>
               Step (\<lambda>s. (log_line (Warning_failed_to_read image_path) s,
                          Done (Inr (0, None))))
           | Inr (Some img) \<Rightarrow>
               (case build_mask img of
                  Inl e \<Rightarrow> Done (Inl e)
                | Inr m \<Rightarrow>
                    Step (\<lambda>s.
                      if \<not> path_exists env (fs s) output_dir
                      then (s, Step (\<lambda>s.
                              case makedirs env (fs s) output_dir of
                                (Some e, w) \<Rightarrow> (s\<lparr>fs := w\<rparr>, Done (Inl e))
                              | (None, w) \<Rightarrow>
                                  (s\<lparr>fs := w\<rparr>,
                                   save_and_count env image_path output_dir m)))
                      else (s, save_and_count env image_path output_dir m)))))"

text \<open>The handler, lines 76 to 78, and the whole function.\<close>

definition on_exception :: "string \<Rightarrow> exn \<Rightarrow> ('w state, exn + result) task" where
  "on_exception image_path e =
     Step (\<lambda>s. (log_line (Error_processing image_path e) s, Done (Inr (0, None))))"

definition process_image ::
  "'w env \<Rightarrow> string \<Rightarrow> string \<Rightarrow> ('w state, exn + result) task" where
  "process_image env image_path output_dir =
     try_except (process_image_body env image_path output_dir) (on_exception image_path)"

section \<open>\<^verbatim>\<open>process_images_in_parallel\<close>\<close>

text \<open>
  The thread pool runs the submitted tasks interleaved. A schedule names, at each moment,
  the task that performs its next atomic action; naming a finished task, or none, changes
  nothing. Leaving the \<^verbatim>\<open>with\<close> block waits for every task: whatever the schedule left
  unfinished is run to its end.
\<close>

definition advance :: "nat \<Rightarrow> 's \<times> ('s, 'a) task list \<Rightarrow> 's \<times> ('s, 'a) task list" where
  "advance k c =
     (case c of
        (s, ts) \<Rightarrow>
          if k < length ts
          then (case ts ! k of
                  Done r \<Rightarrow> (s, ts)
                | Step f \<Rightarrow> (case f s of (s', t) \<Rightarrow> (s', ts[k := t])))
          else (s, ts))"

fun drain :: "('s, 'a) task list \<Rightarrow> 's \<Rightarrow> 's \<times> 'a list" where
  "drain [] s = (s, [])"
| "drain (t # ts) s =
     (case run t s of
        (s', r) \<Rightarrow> (case drain ts s' of (s'', rs) \<Rightarrow> (s'', r # rs)))"

definition run_pool :: "nat list \<Rightarrow> ('s, 'a) task list \<Rightarrow> 's \<Rightarrow> 's \<times> 'a list" where
  "run_pool sched ts s = (case fold advance sched (s, ts) of (s', ts') \<Rightarrow> drain ts' s')"

text \<open>\<^verbatim>\<open>if mask_filename:\<close> holds for a string that is present and not empty.\<close>

definition truthy :: "string option \<Rightarrow> bool" where
  "truthy f = (case f of None \<Rightarrow> False | Some name \<Rightarrow> name \<noteq> [])"

text \<open>
  The loop over \<^verbatim>\<open>as_completed(futures)\<close>: \<open>order\<close> lists the futures in the order in
  which the loop receives them, \<open>rs\<close> holds the outcome of each. \<^verbatim>\<open>future.result()\<close>
  raises again what the task raised.
\<close>

fun collect ::
  "(exn + result) list \<Rightarrow> nat list \<Rightarrow> int \<Rightarrow> 'w state \<Rightarrow> 'w state \<times> (exn + int)" where
  "collect rs [] total_mask_count s = (s, Inr total_mask_count)"
| "collect rs (k # ks) total_mask_count s =
     (case rs ! k of
        Inl e \<Rightarrow> (s, Inl e)
      | Inr (mask_count, filename) \<Rightarrow>
          collect rs ks (total_mask_count + mask_count)
            (if truthy filename then log_line (Info_saved (the filename)) s else s))"

text \<open>
  The whole function. The schedule of the pool and the order of collection are the two
  things the run time chooses; they are arguments. The log lines of the collecting loop
  are placed after those of the workers.
\<close>

definition process_images_in_parallel ::
  "'w env \<Rightarrow> string list \<Rightarrow> string \<Rightarrow> nat list \<Rightarrow> nat list \<Rightarrow> 'w state
     \<Rightarrow> 'w state \<times> (exn + int)" where
  "process_images_in_parallel env image_paths output_dir sched order s =
     (let futures = map (\<lambda>image_path. process_image env image_path output_dir) image_paths in
      case run_pool sched futures s of
        (s1, rs) \<Rightarrow>
          (case collect rs order 0 s1 of
             (s2, Inl e) \<Rightarrow> (s2, Inl e)
           | (s2, Inr total_mask_count) \<Rightarrow>
               (log_line (Info_total total_mask_count) s2, Inr total_mask_count)))"

section \<open>The selection of input files\<close>

text \<open>
  \<^verbatim>\<open>str.lower()\<close> on one character. A \<open>char\<close> is a code point below 256; in that range
  the capital letters are \<open>A\<close> to \<open>Z\<close> and \<open>0xC0\<close> to \<open>0xDE\<close> without \<open>0xD7\<close>, and
  each is 32 below its small letter.
\<close>

definition lower_char :: "char \<Rightarrow> char" where
  "lower_char c =
     (let n = (of_char c :: nat) in
      if (65 \<le> n \<and> n \<le> 90) \<or> (192 \<le> n \<and> n \<le> 222 \<and> n \<noteq> 215)
      then char_of (n + 32) else c)"

definition lower :: "string \<Rightarrow> string" where
  "lower s = map lower_char s"

text \<open>\<^verbatim>\<open>s.endswith(t)\<close>\<close>

definition endswith :: "string \<Rightarrow> string \<Rightarrow> bool" where
  "endswith s t \<longleftrightarrow> length t \<le> length s \<and> drop (length s - length t) s = t"

text \<open>
  Line 135, \<open>entries\<close> being what \<^verbatim>\<open>os.listdir(image_dir)\<close> returned:
  \<^verbatim>\<open>[os.path.join(image_dir, f) for f in os.listdir(image_dir) if f.lower().endswith('g')]\<close>
\<close>

definition image_paths :: "(string \<Rightarrow> string \<Rightarrow> string) \<Rightarrow> string \<Rightarrow> string list \<Rightarrow> string list" where
  "image_paths join image_dir entries =
     [join image_dir f. f \<leftarrow> entries, endswith (lower f) ''g'']"

section \<open>The whole-grid formulation\<close>

text \<open>
  The specification describes the mask a second time, as an operation on whole grids: each
  channel plane is compared with 200 elementwise, the three grids of truth values are
  combined with AND, and the mask is 255 where the result holds. These definitions follow
  that description, not the loop; they are compared with the loop below.
\<close>

definition channel :: "nat \<Rightarrow> image \<Rightarrow> 8 word list list" where
  "channel c im =
     map (map (\<lambda>p. case p of (c0, c1, c2) \<Rightarrow> if c = 0 then c0 else if c = 1 then c1 else c2))
       (pixels im)"

definition above_threshold :: "8 word list list \<Rightarrow> bool list list" where
  "above_threshold plane = map (map (\<lambda>v. 200 < v)) plane"

definition grid_and :: "bool list list \<Rightarrow> bool list list \<Rightarrow> bool list list" where
  "grid_and a b = map2 (map2 (\<and>)) a b"

definition vectorized_condition :: "image \<Rightarrow> bool list list" where
  "vectorized_condition im =
     grid_and
       (grid_and (above_threshold (channel 0 im)) (above_threshold (channel 1 im)))
       (above_threshold (channel 2 im))"

definition vectorized_mask :: "image \<Rightarrow> mask" where
  "vectorized_mask im = map (map (\<lambda>b. if b then 255 else 0)) (vectorized_condition im)"

definition vectorized_count :: "image \<Rightarrow> int" where
  "vectorized_count im = (\<Sum>row\<leftarrow>vectorized_condition im. int (length (filter id row)))"

section \<open>Notions used in the proofs\<close>

text \<open>One iteration of the inner loop and of the outer loop, for indices inside the array.\<close>

definition step_px :: "image \<Rightarrow> nat \<Rightarrow> nat \<Rightarrow> mask \<Rightarrow> mask" where
  "step_px im i j m = (if bright (pixels im ! i ! j) then setitem m i j 255 else m)"

definition step_row :: "image \<Rightarrow> nat \<Rightarrow> mask \<Rightarrow> mask" where
  "step_row im i m = fold (step_px im i) [0..<width im] m"

text \<open>
  \<open>outcomes Q t\<close>: whatever the shared state is at each of its actions, task \<open>t\<close> ends
  with an outcome that satisfies \<open>Q\<close>.
\<close>

primrec outcomes :: "('a \<Rightarrow> bool) \<Rightarrow> ('s, 'a) task \<Rightarrow> bool" where
  "outcomes Q (Done r) = Q r"
| "outcomes Q (Step f) = (\<forall>s. pred_prod (\<lambda>_. True) (outcomes Q) (f s))"

text \<open>The number of pixel positions of the image at a path, 0 if none is loaded from it.\<close>

definition loaded_pixels :: "'w env \<Rightarrow> string \<Rightarrow> int" where
  "loaded_pixels env image_path =
     (case imread env image_path of
        Inr (Some img) \<Rightarrow> int (height img * width img)
      | _ \<Rightarrow> 0)"

text \<open>
  What every call of \<^verbatim>\<open>process_image\<close> on a path ends with: a returned pair whose count
  lies between 0 and the number of pixel positions, and is 0 when no file name is returned.
\<close>

definition bounded_result :: "'w env \<Rightarrow> string \<Rightarrow> exn + result \<Rightarrow> bool" where
  "bounded_result env image_path r =
     (case r of
        Inl e \<Rightarrow> False
      | Inr (n, f) \<Rightarrow> 0 \<le> n \<and> n \<le> loaded_pixels env image_path \<and> (f = None \<longrightarrow> n = 0))"

text \<open>The count of a returned pair.\<close>

definition count_of :: "exn + result \<Rightarrow> int" where
  "count_of r = (case r of Inl e \<Rightarrow> 0 | Inr (n, f) \<Rightarrow> n)"

section \<open>A concrete environment\<close>

text \<open>
  \<^verbatim>\<open>posixpath.join\<close> for two components: an absolute second component replaces the first;
  otherwise the two are joined with one slash, none being added after an empty first
  component or one that ends with a slash.
\<close>

definition posix_join :: "string \<Rightarrow> string \<Rightarrow> string" where
  "posix_join a b =
     (if b \<noteq> [] \<and> hd b = CHR ''/'' then b
      else if a = [] \<or> last a = CHR ''/'' then a @ b
      else a @ ''/'' @ b)"

text \<open>
  One white pixel; the 2 by 2 image of the specification's scenario; a row with a pixel
  whose last channel is exactly 200; a row with no channel above 200; and a list of rows
  shorter than its shape says, which no array is, to reach the branch in which the loop
  raises.
\<close>

definition white_image :: image where
  "white_image = \<lparr>height = 1, width = 1, pixels = [[(255, 255, 255)]]\<rparr>"

definition sample_image :: image where
  "sample_image = \<lparr>height = 2, width = 2,
     pixels = [[(255, 255, 255), (200, 200, 200)], [(201, 201, 201), (0, 0, 0)]]\<rparr>"

definition boundary_image :: image where
  "boundary_image = \<lparr>height = 1, width = 2, pixels = [[(255, 255, 200), (201, 201, 201)]]\<rparr>"

definition dark_image :: image where
  "dark_image = \<lparr>height = 1, width = 2, pixels = [[(200, 200, 200), (0, 0, 0)]]\<rparr>"

definition ragged_image :: image where
  "ragged_image = \<lparr>height = 1, width = 2, pixels = [[(0, 0, 0)]]\<rparr>"

definition demo_imread :: "string \<Rightarrow> exn + image option" where
  "demo_imread p =
     (if p = ''a.png'' \<or> p = ''b.png'' then Inr (Some white_image)
      else if p = ''sample.png'' then Inr (Some sample_image)
      else if p = ''dark.png'' then Inr (Some dark_image)
      else if p = ''ragged.png'' then Inr (Some ragged_image)
      else if p = ''notes.txt'' then Inr None
      else Inl (OtherError ''imread''))"

text \<open>
  A file system that is the list of the paths that exist. \<^verbatim>\<open>os.makedirs\<close> raises
  \<^verbatim>\<open>FileNotFoundError\<close> for the empty path and \<^verbatim>\<open>FileExistsError\<close> for a path that
  exists, and creates the directory otherwise. \<^verbatim>\<open>cv2.imwrite\<close> writes the file, except
  under the directory \<^verbatim>\<open>full\<close>, where it raises.
\<close>

definition demo_env :: "string list env" where
  "demo_env = \<lparr>
     imread = demo_imread,
     path_exists = (\<lambda>w d. d \<in> set w),
     makedirs = (\<lambda>w d. if d = [] then (Some FileNotFoundError, w)
                        else if d \<in> set w then (Some FileExistsError, w)
                        else (None, d # w)),
     imwrite = (\<lambda>w f m. if f = ''full/a_mask.png'' then (Inl (OtherError ''imwrite''), w)
                         else (Inr True, f # w)),
     path_join = posix_join\<rparr>"

definition empty_state :: "string list state" where
  "empty_state = \<lparr>fs = [], logged = []\<rparr>"

definition full_state :: "string list state" where
  "full_state = \<lparr>fs = [''full''], logged = []\<rparr>"

section \<open>The mask loop computes the threshold of every pixel\<close>

lemma all_above_in_range:
  "i < length (pixels im) \<Longrightarrow> j < length (pixels im ! i) \<Longrightarrow>
   all_above im i j = Inr (bright (pixels im ! i ! j))"
  by (auto simp: all_above_def getitem_def bright_def split: prod.splits)

lemma setitem_length [simp]: "length (setitem m i j v) = length m"
  by (simp add: setitem_def)

lemma setitem_row_length [simp]: "length (setitem m i j v ! y) = length (m ! y)"
  by (cases "y = i"; cases "i < length m") (simp_all add: setitem_def list_update_beyond)

lemma setitem_nth:
  "i < length m \<Longrightarrow> j < length (m ! i) \<Longrightarrow>
   setitem m i j v ! y ! x = (if y = i \<and> x = j then v else m ! y ! x)"
  by (cases "y = i"; cases "x = j") (simp_all add: setitem_def)

lemma inner_loop_fold:
  "i < length (pixels im) \<Longrightarrow> \<forall>j \<in> set js. j < length (pixels im ! i) \<Longrightarrow>
   inner_loop im i js m = Inr (fold (step_px im i) js m)"
  by (induction js arbitrary: m) (simp_all add: all_above_in_range step_px_def)

lemma fold_step_px_length [simp]: "length (fold (step_px im i) js m) = length m"
  by (induction js arbitrary: m) (simp_all add: step_px_def)

lemma fold_step_px_row_length [simp]:
  "length (fold (step_px im i) js m ! y) = length (m ! y)"
  by (induction js arbitrary: m) (simp_all add: step_px_def)

lemma fold_step_px_nth:
  "i < length m \<Longrightarrow> \<forall>j \<in> set js. j < length (m ! i) \<Longrightarrow>
   fold (step_px im i) js m ! y ! x =
     (if y = i \<and> x \<in> set js \<and> bright (pixels im ! i ! x) then 255 else m ! y ! x)"
proof (induction js arbitrary: m)
  case Nil
  then show ?case by simp
next
  case (Cons j js)
  let ?m = "step_px im i j m"
  have len: "i < length ?m" "\<forall>k \<in> set js. k < length (?m ! i)"
    using Cons.prems by (simp_all add: step_px_def)
  have here: "?m ! y ! x = (if y = i \<and> x = j \<and> bright (pixels im ! i ! x) then 255 else m ! y ! x)"
    using Cons.prems by (auto simp: step_px_def setitem_nth)
  show ?case
    using Cons.IH [OF len] here by auto
qed

lemma outer_loop_fold:
  "wf_image im \<Longrightarrow> \<forall>i \<in> set is. i < height im \<Longrightarrow>
   outer_loop im is m = Inr (fold (step_row im) is m)"
proof (induction "is" arbitrary: m)
  case Nil
  then show ?case by simp
next
  case (Cons i "is")
  have i: "i < length (pixels im)" and w: "length (pixels im ! i) = width im"
    using Cons.prems by (simp_all add: wf_image_def)
  have "inner_loop im i [0..<width im] m = Inr (step_row im i m)"
    unfolding step_row_def by (rule inner_loop_fold) (simp_all add: i w)
  then show ?case
    using Cons by simp
qed

lemma fold_step_row_length [simp]: "length (fold (step_row im) is m) = length m"
  by (induction "is" arbitrary: m) (simp_all add: step_row_def)

lemma fold_step_row_row_length [simp]:
  "length (fold (step_row im) is m ! y) = length (m ! y)"
  by (induction "is" arbitrary: m) (simp_all add: step_row_def)

lemma fold_step_row_nth:
  "\<forall>i \<in> set is. i < length m \<and> length (m ! i) = width im \<Longrightarrow>
   fold (step_row im) is m ! y ! x =
     (if y \<in> set is \<and> x < width im \<and> bright (pixels im ! y ! x) then 255 else m ! y ! x)"
proof (induction "is" arbitrary: m)
  case Nil
  then show ?case by simp
next
  case (Cons i "is")
  let ?m = "step_row im i m"
  have pre: "\<forall>k \<in> set is. k < length ?m \<and> length (?m ! k) = width im"
    using Cons.prems by (simp add: step_row_def)
  have here: "?m ! y ! x = (if y = i \<and> x < width im \<and> bright (pixels im ! i ! x) then 255 else m ! y ! x)"
    unfolding step_row_def using Cons.prems by (subst fold_step_px_nth) auto
  show ?case
    using Cons.IH [OF pre] here by auto
qed

lemma build_mask_map:
  assumes "wf_image im"
  shows "build_mask im = Inr (map (map mask_value) (pixels im))"
proof -
  let ?m = "fold (step_row im) [0..<height im] (zeros (height im) (width im))"
  have run: "build_mask im = Inr ?m"
    unfolding build_mask_def using assms by (intro outer_loop_fold) simp_all
  have len: "length ?m = length (pixels im)"
    using assms by (simp add: zeros_def wf_image_def)
  have "?m = map (map mask_value) (pixels im)"
  proof (rule nth_equalityI)
    show "length ?m = length (map (map mask_value) (pixels im))"
      using len by simp
  next
    fix y assume "y < length ?m"
    then have y: "y < height im" by (simp add: zeros_def)
    then have row: "length (pixels im ! y) = width im"
      using assms by (simp add: wf_image_def)
    show "?m ! y = map (map mask_value) (pixels im) ! y"
    proof (rule nth_equalityI)
      show "length (?m ! y) = length (map (map mask_value) (pixels im) ! y)"
        using y row assms by (simp add: zeros_def wf_image_def)
    next
      fix x assume "x < length (?m ! y)"
      then have x: "x < width im" using y by (simp add: zeros_def)
      have "?m ! y ! x = (if bright (pixels im ! y ! x) then 255 else 0)"
        using y x by (subst fold_step_row_nth) (simp_all add: zeros_def)
      then show "?m ! y ! x = map (map mask_value) (pixels im) ! y ! x"
        using y x row assms by (simp add: mask_value_def wf_image_def)
    qed
  qed
  with run show ?thesis by simp
qed


lemma word8_gt_200: "(200 :: 8 word) < c \<longleftrightarrow> 200 < unat c"
  by (simp add: word_less_nat_alt)

lemma bright_unat:
  "bright p = (case p of (c0, c1, c2) \<Rightarrow> 200 < unat c0 \<and> 200 < unat c1 \<and> 200 < unat c2)"
  by (simp add: bright_def word8_gt_200 split: prod.splits)

lemma mask_value_on [simp]: "mask_value p = 255 \<longleftrightarrow> bright p"
  by (simp add: mask_value_def)

lemma mask_value_cases: "mask_value p = 0 \<or> mask_value p = 255"
  by (simp add: mask_value_def)

text \<open>
  Claim C1. For an array as \<^verbatim>\<open>cv2.imread\<close> returns it and every position \<open>(y, x)\<close> inside
  it, the loop ends without raising, and the mask it leaves is 255 at \<open>(y, x)\<close> exactly when
  each of the three channel values there is greater than 200, and 0 otherwise; a pixel
  \<open>(255, 255, 200)\<close> is left 0.
\<close>

theorem mask_pixel_iff_all_channels_above_200:
  assumes "wf_image im" and "y < height im" and "x < width im"
  shows "\<exists>m. build_mask im = Inr m
           \<and> (m ! y ! x = 255 \<longleftrightarrow>
                (case pixels im ! y ! x of
                   (c0, c1, c2) \<Rightarrow> 200 < unat c0 \<and> 200 < unat c1 \<and> 200 < unat c2))
           \<and> (m ! y ! x \<noteq> 255 \<longrightarrow> m ! y ! x = 0)
           \<and> (pixels im ! y ! x = (255, 255, 200) \<longrightarrow> m ! y ! x = 0)"
proof -
  let ?m = "map (map mask_value) (pixels im)"
  have y: "y < length (pixels im)" and x: "x < length (pixels im ! y)"
    using assms by (simp_all add: wf_image_def)
  have at: "?m ! y ! x = mask_value (pixels im ! y ! x)"
    using y x by simp
  have iff: "?m ! y ! x = 255 \<longleftrightarrow>
      (case pixels im ! y ! x of
         (c0, c1, c2) \<Rightarrow> 200 < unat c0 \<and> 200 < unat c1 \<and> 200 < unat c2)"
    unfolding at by (simp add: bright_unat)
  have off: "?m ! y ! x \<noteq> 255 \<longrightarrow> ?m ! y ! x = 0"
    unfolding at using mask_value_cases [of "pixels im ! y ! x"] by auto
  have edge: "pixels im ! y ! x = (255, 255, 200) \<longrightarrow> ?m ! y ! x = 0"
    unfolding at by (simp add: mask_value_def bright_def)
  show ?thesis
    by (intro exI [of _ ?m] conjI) (rule build_mask_map [OF assms(1)] iff off edge)+
qed

theorem mask_pixel_iff_all_channels_above_200_witness:
  "wf_image boundary_image \<and> (0::nat) < height boundary_image \<and> (0::nat) < width boundary_image
   \<and> pixels boundary_image ! 0 ! 0 = (255, 255, 200)
   \<and> (\<exists>m. build_mask boundary_image = Inr m \<and> m ! 0 ! 0 = 0)"
proof -
  have wf: "wf_image boundary_image"
    by (simp add: wf_image_def boundary_image_def)
  have h: "0 < height boundary_image" and w: "0 < width boundary_image"
    by (simp_all add: boundary_image_def)
  have px: "pixels boundary_image ! 0 ! 0 = (255, 255, 200)"
    by (simp add: boundary_image_def)
  from mask_pixel_iff_all_channels_above_200 [OF wf h w] px
  have "\<exists>m. build_mask boundary_image = Inr m \<and> m ! 0 ! 0 = 0"
    by blast
  with wf h w px show ?thesis
    by blast
qed

text \<open>
  Claim C7. The mask has the height and the width of the source image, and each of its
  values is 0 or 255.
\<close>

theorem mask_shape_and_values:
  assumes "wf_image im"
  shows "\<exists>m. build_mask im = Inr m
           \<and> length m = height im
           \<and> (\<forall>row \<in> set m. length row = width im \<and> (\<forall>v \<in> set row. v = 0 \<or> v = 255))"
proof -
  let ?m = "map (map mask_value) (pixels im)"
  have "length ?m = height im"
    using assms by (simp add: wf_image_def)
  moreover have "\<forall>row \<in> set ?m. length row = width im \<and> (\<forall>v \<in> set row. v = 0 \<or> v = 255)"
    using assms mask_value_cases by (auto simp: wf_image_def)
  ultimately show ?thesis
    using build_mask_map [OF assms] by blast
qed

theorem mask_shape_and_values_witness:
  "wf_image sample_image
   \<and> (\<exists>m. build_mask sample_image = Inr m \<and> length m = 2
          \<and> (\<forall>row \<in> set m. length row = 2 \<and> (\<forall>v \<in> set row. v = 0 \<or> v = 255)))"
proof -
  have wf: "wf_image sample_image"
    by (simp add: wf_image_def sample_image_def)
  have "height sample_image = 2" and "width sample_image = 2"
    by (simp_all add: sample_image_def)
  with mask_shape_and_values [OF wf] wf show ?thesis
    by simp
qed

section \<open>The loop and the whole-grid formulation agree\<close>

lemma map2_same: "map2 f (map g xs) (map h xs) = map (\<lambda>x. f (g x) (h x)) xs"
  by (induction xs) simp_all

lemma vectorized_condition_map:
  "vectorized_condition im = map (map bright) (pixels im)"
proof -
  have row: "map2 (\<and>) (map g r) (map h r) = map (\<lambda>p. g p \<and> h p) r"
    for g h :: "pixel \<Rightarrow> bool" and r
    by (rule map2_same)
  have grid: "map2 (map2 (\<and>)) (map (map g) px) (map (map h) px) = map (map (\<lambda>p. g p \<and> h p)) px"
    for g h :: "pixel \<Rightarrow> bool" and px
    by (induction px) (simp_all add: row)
  have "vectorized_condition im =
      map (map (\<lambda>p. (200 < fst p \<and> 200 < fst (snd p)) \<and> 200 < snd (snd p))) (pixels im)"
    unfolding vectorized_condition_def grid_and_def above_threshold_def channel_def
    by (simp add: grid o_def case_prod_beta)
  also have "\<dots> = map (map bright) (pixels im)"
    by (simp add: bright_def case_prod_beta)
  finally show ?thesis .
qed

lemma vectorized_mask_map: "vectorized_mask im = map (map mask_value) (pixels im)"
  by (simp add: vectorized_mask_def vectorized_condition_map mask_value_def o_def)

lemma count_on_map:
  "count_on (map (map mask_value) px) = (\<Sum>row\<leftarrow>px. int (length (filter bright row)))"
proof -
  have "length (filter (\<lambda>v. v = 255) (map mask_value row)) = length (filter bright row)" for row
    by (induction row) simp_all
  then show ?thesis
    by (simp add: count_on_def o_def)
qed

lemma vectorized_count_map:
  "vectorized_count im = (\<Sum>row\<leftarrow>pixels im. int (length (filter bright row)))"
proof -
  have "length (filter id (map bright row)) = length (filter bright row)" for row
    by (induction row) simp_all
  then show ?thesis
    by (simp add: vectorized_count_def vectorized_condition_map o_def)
qed

text \<open>
  Claim C8. For every array the loop and the whole-grid formulation (each channel compared
  with 200, the three results combined with AND) produce the same mask and the same count
  of pixels that are on.
\<close>

theorem loop_equals_vectorized:
  assumes "wf_image im"
  shows "\<exists>m. build_mask im = Inr m \<and> m = vectorized_mask im
           \<and> count_on m = vectorized_count im"
proof -
  have "build_mask im = Inr (vectorized_mask im)"
    using build_mask_map [OF assms] by (simp add: vectorized_mask_map)
  moreover have "count_on (vectorized_mask im) = vectorized_count im"
    by (simp add: vectorized_mask_map count_on_map vectorized_count_map)
  ultimately show ?thesis
    by simp
qed

theorem loop_equals_vectorized_witness:
  "wf_image sample_image
   \<and> (\<exists>m. build_mask sample_image = Inr m \<and> m = vectorized_mask sample_image
          \<and> count_on m = vectorized_count sample_image)
   \<and> vectorized_mask sample_image = [[255, 0], [255, 0]]
   \<and> vectorized_count sample_image = 2"
proof -
  have wf: "wf_image sample_image"
    by (simp add: wf_image_def sample_image_def)
  have m: "vectorized_mask sample_image = [[255, 0], [255, 0]]"
    by (simp add: vectorized_mask_def vectorized_condition_def grid_and_def
        above_threshold_def channel_def sample_image_def)
  have c: "vectorized_count sample_image = 2"
    by (simp add: vectorized_count_def vectorized_condition_def grid_and_def
        above_threshold_def channel_def sample_image_def)
  from loop_equals_vectorized [OF wf] wf m c show ?thesis
    by (intro conjI)
qed

section \<open>Counting positions\<close>

lemma card_positions:
  assumes "length px = h" and "\<forall>row \<in> set px. length row = w"
  shows "card {(y, x). y < h \<and> x < w \<and> P (px ! y ! x)} = (\<Sum>row\<leftarrow>px. length (filter P row))"
proof -
  have rows: "length (px ! y) = w" if "y < h" for y
    using assms that by simp
  have "{(y, x). y < h \<and> x < w \<and> P (px ! y ! x)}
      = (SIGMA y:{..<h}. {x. x < length (px ! y) \<and> P (px ! y ! x)})"
    using rows by auto
  also have "card \<dots> = (\<Sum>y\<in>{..<h}. card {x. x < length (px ! y) \<and> P (px ! y ! x)})"
    by (rule card_SigmaI) simp_all
  also have "\<dots> = (\<Sum>y\<in>{..<h}. length (filter P (px ! y)))"
    by (simp add: length_filter_conv_card)
  also have "\<dots> = (\<Sum>row\<leftarrow>px. length (filter P row))"
    using assms(1) by (simp add: sum_list_sum_nth atLeast0LessThan)
  finally show ?thesis .
qed

lemma count_on_card:
  assumes "wf_image im"
  shows "count_on (map (map mask_value) (pixels im))
       = int (card {(y, x). y < height im \<and> x < width im \<and> bright (pixels im ! y ! x)})"
proof -
  have "card {(y, x). y < height im \<and> x < width im \<and> bright (pixels im ! y ! x)}
      = (\<Sum>row\<leftarrow>pixels im. length (filter bright row))"
    using assms by (intro card_positions) (simp_all add: wf_image_def)
  then have "int (card {(y, x). y < height im \<and> x < width im \<and> bright (pixels im ! y ! x)})
      = (\<Sum>row\<leftarrow>pixels im. int (length (filter bright row)))"
    by (simp add: sum_list_of_nat [symmetric] o_def)
  then show ?thesis
    by (simp add: count_on_map)
qed

lemma count_on_none:
  assumes "\<forall>row \<in> set px. \<forall>p \<in> set row. \<not> bright p"
  shows "count_on (map (map mask_value) px) = 0"
proof -
  have "(\<Sum>row\<leftarrow>px. int (length (filter bright row))) = 0"
    using assms by (induction px) simp_all
  then show ?thesis
    by (simp add: count_on_map)
qed

lemma count_on_all:
  assumes "length px = h" and "\<forall>row \<in> set px. length row = w \<and> (\<forall>p \<in> set row. bright p)"
  shows "count_on (map (map mask_value) px) = int (w * h)"
proof -
  have "(\<Sum>row\<leftarrow>px. int (length (filter bright row))) = int (w * length px)"
    using assms(2) by (induction px) (simp_all add: algebra_simps)
  then show ?thesis
    using assms(1) by (simp add: count_on_map)
qed

section \<open>Running \<^verbatim>\<open>process_image\<close> alone\<close>

lemma run_Step [simp]: "run (Step f) s = run (snd (f s)) (fst (f s))"
  by (simp add: case_prod_beta)

lemma try_except_Step [simp]:
  "try_except (Step f) h = Step (\<lambda>s. (fst (f s), try_except (snd (f s)) h))"
  by (simp add: map_prod_def case_prod_beta)

lemma outcomes_Step [simp]: "outcomes Q (Step f) = (\<forall>s. outcomes Q (snd (f s)))"
  by (simp add: pred_prod_beta)

declare run.simps(2) [simp del] try_except.simps(2) [simp del] outcomes.simps(2) [simp del]

lemma run_try_except:
  "run (try_except t h) s =
     (case run t s of
        (s1, Inl e) \<Rightarrow> run (h e) s1
      | (s1, Inr v) \<Rightarrow> (s1, Inr v))"
proof (induction t arbitrary: s)
  case (Done r)
  then show ?case by (cases r) simp_all
next
  case (Step f)
  have "snd (f s) \<in> Basic_BNFs.snds (f s)"
    by (cases "f s") simp
  then show ?case
    using Step.IH [of "f s" "snd (f s)" "fst (f s)"] by simp
qed

lemma run_save_and_count:
  "run (save_and_count env p d m) s =
     (case imwrite env (fs s) (mask_filename (path_join env) d p) m of
        (Inl e, w) \<Rightarrow> (s\<lparr>fs := w\<rparr>, Inl e)
      | (Inr written, w) \<Rightarrow>
          (log_line (Info_mask_pixels p (count_on m)) (s\<lparr>fs := w\<rparr>),
           Inr (count_on m, Some (mask_filename (path_join env) d p))))"
  by (simp add: save_and_count_def Let_def split: prod.splits sum.splits)

lemma run_process_image_body:
  "run (process_image_body env p d) s =
     (case imread env p of
        Inl e \<Rightarrow> (s, Inl e)
      | Inr None \<Rightarrow> (log_line (Warning_failed_to_read p) s, Inr (0, None))
      | Inr (Some img) \<Rightarrow>
          (case build_mask img of
             Inl e \<Rightarrow> (s, Inl e)
           | Inr m \<Rightarrow>
               if \<not> path_exists env (fs s) d
               then (case makedirs env (fs s) d of
                       (Some e, w) \<Rightarrow> (s\<lparr>fs := w\<rparr>, Inl e)
                     | (None, w) \<Rightarrow> run (save_and_count env p d m) (s\<lparr>fs := w\<rparr>))
               else run (save_and_count env p d m) s))"
  by (simp add: process_image_body_def split: prod.splits sum.splits option.splits)

lemma run_process_image:
  "run (process_image env p d) s =
     (case run (process_image_body env p d) s of
        (s1, Inl e) \<Rightarrow> (log_line (Error_processing p e) s1, Inr (0, None))
      | (s1, Inr v) \<Rightarrow> (s1, Inr v))"
  by (simp add: process_image_def run_try_except on_exception_def
      split: prod.splits sum.splits)

lemmas run_process_image_unfold =
  run_process_image run_process_image_body run_save_and_count

text \<open>
  Claim C4. \<^verbatim>\<open>process_image\<close> never lets an exception reach its caller. When loading yields
  no data it logs a warning and returns \<open>(0, None)\<close>. An exception raised by the loading,
  by the loop over the pixels, by the creation of the directory or by the writing of the
  file is logged as an error with the path and turned into the result \<open>(0, None)\<close>.
\<close>

theorem process_image_never_raises:
  "(\<exists>s' n f. run (process_image env p d) s = (s', Inr (n, f)))
   \<and> (imread env p = Inr None \<longrightarrow>
        run (process_image env p d) s = (log_line (Warning_failed_to_read p) s, Inr (0, None)))
   \<and> (\<forall>e. imread env p = Inl e \<longrightarrow>
        run (process_image env p d) s = (log_line (Error_processing p e) s, Inr (0, None)))
   \<and> (\<forall>img e. imread env p = Inr (Some img) \<and> build_mask img = Inl e \<longrightarrow>
        run (process_image env p d) s = (log_line (Error_processing p e) s, Inr (0, None)))
   \<and> (\<forall>img m e w. imread env p = Inr (Some img) \<and> build_mask img = Inr m
          \<and> \<not> path_exists env (fs s) d \<and> makedirs env (fs s) d = (Some e, w) \<longrightarrow>
        run (process_image env p d) s
          = (log_line (Error_processing p e) (s\<lparr>fs := w\<rparr>), Inr (0, None)))
   \<and> (\<forall>img m e w. imread env p = Inr (Some img) \<and> build_mask img = Inr m
          \<and> path_exists env (fs s) d
          \<and> imwrite env (fs s) (mask_filename (path_join env) d p) m = (Inl e, w) \<longrightarrow>
        run (process_image env p d) s
          = (log_line (Error_processing p e) (s\<lparr>fs := w\<rparr>), Inr (0, None)))
   \<and> (\<forall>img m e w w'. imread env p = Inr (Some img) \<and> build_mask img = Inr m
          \<and> \<not> path_exists env (fs s) d \<and> makedirs env (fs s) d = (None, w)
          \<and> imwrite env w (mask_filename (path_join env) d p) m = (Inl e, w') \<longrightarrow>
        run (process_image env p d) s
          = (log_line (Error_processing p e) (s\<lparr>fs := w'\<rparr>), Inr (0, None)))"
proof (intro conjI)
  show "\<exists>s' n f. run (process_image env p d) s = (s', Inr (n, f))"
    by (simp add: run_process_image_unfold split: prod.splits sum.splits option.splits)
qed (simp_all add: run_process_image_unfold)

lemma build_mask_white: "build_mask white_image = Inr [[255]]"
  by code_simp

lemma build_mask_ragged: "build_mask ragged_image = Inl IndexError"
  by code_simp

lemma build_mask_sample: "build_mask sample_image = Inr [[255, 0], [255, 0]]"
  by code_simp

lemmas demo_simps =
  demo_env_def demo_imread_def posix_join_def mask_filename_def empty_state_def
  full_state_def log_line_def

theorem process_image_never_raises_witness:
  "run (process_image demo_env ''notes.txt'' ''outputs'') empty_state
     = (\<lparr>fs = [], logged = [Warning_failed_to_read ''notes.txt'']\<rparr>, Inr (0, None))
   \<and> run (process_image demo_env ''missing.png'' ''outputs'') empty_state
     = (\<lparr>fs = [], logged = [Error_processing ''missing.png'' (OtherError ''imread'')]\<rparr>,
        Inr (0, None))
   \<and> run (process_image demo_env ''ragged.png'' ''outputs'') empty_state
     = (\<lparr>fs = [], logged = [Error_processing ''ragged.png'' IndexError]\<rparr>, Inr (0, None))
   \<and> run (process_image demo_env ''a.png'' []) empty_state
     = (\<lparr>fs = [], logged = [Error_processing ''a.png'' FileNotFoundError]\<rparr>, Inr (0, None))
   \<and> run (process_image demo_env ''a.png'' ''full'') full_state
     = (\<lparr>fs = [''full''], logged = [Error_processing ''a.png'' (OtherError ''imwrite'')]\<rparr>,
        Inr (0, None))
   \<and> run (process_image demo_env ''a.png'' ''full'') empty_state
     = (\<lparr>fs = [''full''], logged = [Error_processing ''a.png'' (OtherError ''imwrite'')]\<rparr>,
        Inr (0, None))"
proof -
  note nodata = process_image_never_raises [THEN conjunct2, THEN conjunct1, rule_format]
  note ld = process_image_never_raises
    [THEN conjunct2, THEN conjunct2, THEN conjunct1, rule_format]
  note lp = process_image_never_raises
    [THEN conjunct2, THEN conjunct2, THEN conjunct2, THEN conjunct1, rule_format]
  note mk = process_image_never_raises
    [THEN conjunct2, THEN conjunct2, THEN conjunct2, THEN conjunct2, THEN conjunct1,
     rule_format]
  note wr1 = process_image_never_raises
    [THEN conjunct2, THEN conjunct2, THEN conjunct2, THEN conjunct2, THEN conjunct2,
     THEN conjunct1, rule_format]
  note wr2 = process_image_never_raises
    [THEN conjunct2, THEN conjunct2, THEN conjunct2, THEN conjunct2, THEN conjunct2,
     THEN conjunct2, rule_format]
  have "imread demo_env ''notes.txt'' = Inr None"
    by (simp add: demo_simps)
  from nodata [OF this, of "''outputs''" empty_state]
  have c1: "run (process_image demo_env ''notes.txt'' ''outputs'') empty_state
      = (\<lparr>fs = [], logged = [Warning_failed_to_read ''notes.txt'']\<rparr>, Inr (0, None))"
    by (simp add: demo_simps)
  have "imread demo_env ''missing.png'' = Inl (OtherError ''imread'')"
    by (simp add: demo_simps)
  from ld [OF this, of "''outputs''" empty_state]
  have c2: "run (process_image demo_env ''missing.png'' ''outputs'') empty_state
      = (\<lparr>fs = [], logged = [Error_processing ''missing.png'' (OtherError ''imread'')]\<rparr>,
         Inr (0, None))"
    by (simp add: demo_simps)
  have "imread demo_env ''ragged.png'' = Inr (Some ragged_image)
      \<and> build_mask ragged_image = Inl IndexError"
    by (simp add: demo_simps build_mask_ragged)
  from lp [OF this, of "''outputs''" empty_state]
  have c3: "run (process_image demo_env ''ragged.png'' ''outputs'') empty_state
      = (\<lparr>fs = [], logged = [Error_processing ''ragged.png'' IndexError]\<rparr>, Inr (0, None))"
    by (simp add: demo_simps)
  have "imread demo_env ''a.png'' = Inr (Some white_image)
      \<and> build_mask white_image = Inr [[255]]
      \<and> \<not> path_exists demo_env (fs empty_state) []
      \<and> makedirs demo_env (fs empty_state) [] = (Some FileNotFoundError, [])"
    by (simp add: demo_simps build_mask_white)
  from mk [OF this]
  have c4: "run (process_image demo_env ''a.png'' []) empty_state
      = (\<lparr>fs = [], logged = [Error_processing ''a.png'' FileNotFoundError]\<rparr>, Inr (0, None))"
    by (simp add: demo_simps)
  have "imread demo_env ''a.png'' = Inr (Some white_image)
      \<and> build_mask white_image = Inr [[255]]
      \<and> path_exists demo_env (fs full_state) ''full''
      \<and> imwrite demo_env (fs full_state) (mask_filename (path_join demo_env) ''full'' ''a.png'')
          [[255]] = (Inl (OtherError ''imwrite''), [''full''])"
    by (simp add: demo_simps build_mask_white)
  from wr1 [OF this]
  have c5: "run (process_image demo_env ''a.png'' ''full'') full_state
      = (\<lparr>fs = [''full''], logged = [Error_processing ''a.png'' (OtherError ''imwrite'')]\<rparr>,
         Inr (0, None))"
    by (simp add: demo_simps)
  have "imread demo_env ''a.png'' = Inr (Some white_image)
      \<and> build_mask white_image = Inr [[255]]
      \<and> \<not> path_exists demo_env (fs empty_state) ''full''
      \<and> makedirs demo_env (fs empty_state) ''full'' = (None, [''full''])
      \<and> imwrite demo_env [''full''] (mask_filename (path_join demo_env) ''full'' ''a.png'')
          [[255]] = (Inl (OtherError ''imwrite''), [''full''])"
    by (simp add: demo_simps build_mask_white)
  from wr2 [OF this]
  have c6: "run (process_image demo_env ''a.png'' ''full'') empty_state
      = (\<lparr>fs = [''full''], logged = [Error_processing ''a.png'' (OtherError ''imwrite'')]\<rparr>,
         Inr (0, None))"
    by (simp add: demo_simps)
  from c1 c2 c3 c4 c5 c6 show ?thesis
    by (intro conjI)
qed

lemma process_image_success:
  assumes "run (process_image env p d) s = (s', Inr (n, Some f))"
    and "imread env p = Inr (Some im)"
  shows "\<exists>m. build_mask im = Inr m \<and> n = count_on m \<and> f = mask_filename (path_join env) d p"
  using assms
  by (auto simp: run_process_image_unfold split: sum.splits prod.splits if_splits option.splits)

lemma not_bright_le:
  "unat c0 \<le> 200 \<and> unat c1 \<le> 200 \<and> unat c2 \<le> 200 \<Longrightarrow> \<not> bright (c0, c1, c2)"
  by (simp add: bright_unat)

lemma bright_white: "bright (255, 255, 255)"
  by (simp add: bright_def)

text \<open>
  Claim C2, as amended. When \<^verbatim>\<open>process_image\<close> has loaded an image and returns an output
  location, the count it returns is the number of pixel positions at which each of the
  three channel values is greater than 200; it is 0 for an image with no channel above
  200, and width times height for an image whose channels are all 255.
\<close>

theorem on_count_of_successful_image:
  assumes "imread env p = Inr (Some im)" and "wf_image im"
    and "run (process_image env p d) s = (s', Inr (n, Some f))"
  shows "n = int (card {(y, x). y < height im \<and> x < width im
                      \<and> (case pixels im ! y ! x of
                            (c0, c1, c2) \<Rightarrow> 200 < unat c0 \<and> 200 < unat c1 \<and> 200 < unat c2)})
       \<and> ((\<forall>row \<in> set (pixels im). \<forall>(c0, c1, c2) \<in> set row.
               unat c0 \<le> 200 \<and> unat c1 \<le> 200 \<and> unat c2 \<le> 200) \<longrightarrow> n = 0)
       \<and> ((\<forall>row \<in> set (pixels im). \<forall>px \<in> set row. px = (255, 255, 255)) \<longrightarrow>
              n = int (width im * height im))"
proof -
  let ?m = "map (map mask_value) (pixels im)"
  from process_image_success [OF assms(3) assms(1)] build_mask_map [OF assms(2)]
  have n: "n = count_on ?m"
    by auto
  have "n = int (card {(y, x). y < height im \<and> x < width im \<and> bright (pixels im ! y ! x)})"
    unfolding n by (rule count_on_card [OF assms(2)])
  then have positions: "n = int (card {(y, x). y < height im \<and> x < width im
                      \<and> (case pixels im ! y ! x of
                            (c0, c1, c2) \<Rightarrow> 200 < unat c0 \<and> 200 < unat c1 \<and> 200 < unat c2)})"
    by (simp add: bright_unat)
  have dark: "n = 0"
    if "\<forall>row \<in> set (pixels im). \<forall>(c0, c1, c2) \<in> set row.
          unat c0 \<le> 200 \<and> unat c1 \<le> 200 \<and> unat c2 \<le> 200"
  proof -
    have "\<forall>row \<in> set (pixels im). \<forall>px \<in> set row. \<not> bright px"
      using that not_bright_le by fastforce
    then show ?thesis
      unfolding n by (rule count_on_none)
  qed
  have white: "n = int (width im * height im)"
    if "\<forall>row \<in> set (pixels im). \<forall>px \<in> set row. px = (255, 255, 255)"
  proof -
    have "\<forall>row \<in> set (pixels im). length row = width im \<and> (\<forall>px \<in> set row. bright px)"
      using that assms(2) bright_white by (auto simp: wf_image_def)
    moreover have "length (pixels im) = height im"
      using assms(2) by (simp add: wf_image_def)
    ultimately show ?thesis
      unfolding n by (intro count_on_all)
  qed
  from positions dark white show ?thesis
    by (intro conjI impI)
qed

lemma build_mask_dark: "build_mask dark_image = Inr [[0, 0]]"
  by code_simp

lemma run_sample:
  "run (process_image demo_env ''sample.png'' ''outputs'') empty_state
     = (\<lparr>fs = [''outputs/sample_mask.png'', ''outputs''],
         logged = [Info_mask_pixels ''sample.png'' 2]\<rparr>,
        Inr (2, Some ''outputs/sample_mask.png''))"
  by (simp add: run_process_image_unfold demo_simps build_mask_sample count_on_def)

lemma run_white:
  "run (process_image demo_env ''a.png'' ''outputs'') empty_state
     = (\<lparr>fs = [''outputs/a_mask.png'', ''outputs''],
         logged = [Info_mask_pixels ''a.png'' 1]\<rparr>,
        Inr (1, Some ''outputs/a_mask.png''))"
  by (simp add: run_process_image_unfold demo_simps build_mask_white count_on_def)

lemma run_dark:
  "run (process_image demo_env ''dark.png'' ''outputs'') empty_state
     = (\<lparr>fs = [''outputs/dark_mask.png'', ''outputs''],
         logged = [Info_mask_pixels ''dark.png'' 0]\<rparr>,
        Inr (0, Some ''outputs/dark_mask.png''))"
  by (simp add: run_process_image_unfold demo_simps build_mask_dark count_on_def)

theorem on_count_of_successful_image_witness:
  "imread demo_env ''sample.png'' = Inr (Some sample_image) \<and> wf_image sample_image
   \<and> run (process_image demo_env ''sample.png'' ''outputs'') empty_state
        = (\<lparr>fs = [''outputs/sample_mask.png'', ''outputs''],
            logged = [Info_mask_pixels ''sample.png'' 2]\<rparr>,
           Inr (2, Some ''outputs/sample_mask.png''))
   \<and> int (card {(y, x). y < height sample_image \<and> x < width sample_image
                  \<and> (case pixels sample_image ! y ! x of
                        (c0, c1, c2) \<Rightarrow> 200 < unat c0 \<and> 200 < unat c1 \<and> 200 < unat c2)}) = 2
   \<and> imread demo_env ''dark.png'' = Inr (Some dark_image) \<and> wf_image dark_image
   \<and> pixels dark_image = [[(200, 200, 200), (0, 0, 0)]]
   \<and> snd (run (process_image demo_env ''dark.png'' ''outputs'') empty_state)
        = Inr (0, Some ''outputs/dark_mask.png'')
   \<and> imread demo_env ''a.png'' = Inr (Some white_image) \<and> wf_image white_image
   \<and> pixels white_image = [[(255, 255, 255)]]
   \<and> snd (run (process_image demo_env ''a.png'' ''outputs'') empty_state)
        = Inr (int (width white_image * height white_image), Some ''outputs/a_mask.png'')"
proof -
  have s1: "imread demo_env ''sample.png'' = Inr (Some sample_image)"
    and d1: "imread demo_env ''dark.png'' = Inr (Some dark_image)"
    and w1: "imread demo_env ''a.png'' = Inr (Some white_image)"
    by (simp_all add: demo_simps)
  have s2: "wf_image sample_image" and d2: "wf_image dark_image" and w2: "wf_image white_image"
    by (simp_all add: wf_image_def sample_image_def dark_image_def white_image_def)
  have d3: "pixels dark_image = [[(200, 200, 200), (0, 0, 0)]]"
    and w3: "pixels white_image = [[(255, 255, 255)]]"
    by (simp_all add: dark_image_def white_image_def)
  from on_count_of_successful_image [OF s1 s2 run_sample]
  have s4: "int (card {(y, x). y < height sample_image \<and> x < width sample_image
                  \<and> (case pixels sample_image ! y ! x of
                        (c0, c1, c2) \<Rightarrow> 200 < unat c0 \<and> 200 < unat c1 \<and> 200 < unat c2)}) = 2"
    by simp
  from on_count_of_successful_image [OF d1 d2 run_dark]
  have d4: "snd (run (process_image demo_env ''dark.png'' ''outputs'') empty_state)
        = Inr (0, Some ''outputs/dark_mask.png'')"
    by (simp add: run_dark)
  from on_count_of_successful_image [OF w1 w2 run_white]
  have "(1::int) = int (width white_image * height white_image)"
    by (simp add: w3)
  then have w4: "snd (run (process_image demo_env ''a.png'' ''outputs'') empty_state)
        = Inr (int (width white_image * height white_image), Some ''outputs/a_mask.png'')"
    by (simp add: run_white)
  from s1 s2 run_sample s4 d1 d2 d3 d4 w1 w2 w3 w4 show ?thesis
    by (intro conjI)
qed

text \<open>
  Claim C2 as it is stated does not hold: an image of one white pixel is loaded, the
  output directory is the empty path, \<^verbatim>\<open>os.makedirs\<close> raises, and the count returned is
  0, not width times height.
\<close>

theorem on_count_zero_after_failed_makedirs:
  "imread demo_env ''a.png'' = Inr (Some white_image)
   \<and> wf_image white_image
   \<and> pixels white_image = [[(255, 255, 255)]]
   \<and> int (width white_image * height white_image) = 1
   \<and> run (process_image demo_env ''a.png'' []) empty_state
        = (\<lparr>fs = [], logged = [Error_processing ''a.png'' FileNotFoundError]\<rparr>, Inr (0, None))"
proof -
  have "run (process_image demo_env ''a.png'' []) empty_state
      = (\<lparr>fs = [], logged = [Error_processing ''a.png'' FileNotFoundError]\<rparr>, Inr (0, None))"
    by (simp add: run_process_image_unfold demo_simps build_mask_white)
  moreover have "imread demo_env ''a.png'' = Inr (Some white_image)"
    by (simp add: demo_simps)
  moreover have "wf_image white_image" and "pixels white_image = [[(255, 255, 255)]]"
    and "int (width white_image * height white_image) = 1"
    by (simp_all add: wf_image_def white_image_def)
  ultimately show ?thesis
    by (intro conjI)
qed

section \<open>Every outcome of \<^verbatim>\<open>process_image\<close>, whatever runs in between\<close>

lemma outcomes_run: "outcomes Q t \<Longrightarrow> Q (snd (run t s))"
proof (induction t arbitrary: s)
  case (Done r)
  then show ?case by simp
next
  case (Step f)
  have "snd (f s) \<in> Basic_BNFs.snds (f s)"
    by (cases "f s") simp
  then show ?case
    using Step.IH [of "f s" "snd (f s)" "fst (f s)"] Step.prems by simp
qed

lemma outcomes_try_except:
  "outcomes (\<lambda>r. case r of Inl e \<Rightarrow> outcomes Q (h e) | Inr v \<Rightarrow> Q (Inr v)) t
   \<Longrightarrow> outcomes Q (try_except t h)"
proof (induction t)
  case (Done r)
  then show ?case by (cases r) simp_all
next
  case (Step f)
  show ?case
  proof (simp, rule allI)
    fix s
    have "snd (f s) \<in> Basic_BNFs.snds (f s)"
      by (cases "f s") simp
    then show "outcomes Q (try_except (snd (f s)) h)"
      using Step.IH [of "f s" "snd (f s)"] Step.prems by simp
  qed
qed

lemma setitem_shape: "map length (setitem m i j v) = map length m"
  by (rule nth_equalityI) simp_all

lemma inner_loop_shape: "inner_loop im i js m = Inr m' \<Longrightarrow> map length m' = map length m"
  by (induction js arbitrary: m) (auto simp: setitem_shape split: sum.splits if_splits)

lemma outer_loop_shape: "outer_loop im is m = Inr m' \<Longrightarrow> map length m' = map length m"
proof (induction "is" arbitrary: m)
  case Nil
  then show ?case by simp
next
  case (Cons i "is")
  then show ?case
    by (auto split: sum.splits dest!: inner_loop_shape)
qed

lemma count_on_nonneg: "0 \<le> count_on m"
  by (induction m) (simp_all add: count_on_def)

lemma count_on_le: "count_on m \<le> int (sum_list (map length m))"
proof (induction m)
  case Nil
  then show ?case by (simp add: count_on_def)
next
  case (Cons row m)
  have le: "int (length (filter (\<lambda>v. v = 255) row)) \<le> int (length row)"
    by simp
  have eq: "count_on (row # m) = int (length (filter (\<lambda>v. v = 255) row)) + count_on m"
    by (simp add: count_on_def)
  show ?case
    using add_mono [OF le Cons.IH] by (simp add: eq)
qed

lemma build_mask_count_le:
  assumes "build_mask im = Inr m"
  shows "count_on m \<le> int (height im * width im)"
proof -
  have "map length m = replicate (height im) (width im)"
    using outer_loop_shape [OF assms [unfolded build_mask_def]] by (simp add: zeros_def)
  then have "sum_list (map length m) = height im * width im"
    by (simp add: sum_list_replicate)
  with count_on_le [of m] show ?thesis
    by simp
qed

lemma loaded_pixels_nonneg: "0 \<le> loaded_pixels env p"
  by (simp add: loaded_pixels_def split: sum.splits option.splits)

lemma process_image_outcomes: "outcomes (bounded_result env p) (process_image env p d)"
  unfolding process_image_def
proof (rule outcomes_try_except)
  show "outcomes
      (\<lambda>r. case r of
              Inl e \<Rightarrow> outcomes (bounded_result env p) (on_exception p e)
            | Inr v \<Rightarrow> bounded_result env p (Inr v))
      (process_image_body env p d)"
    by (auto simp: process_image_body_def save_and_count_def on_exception_def Let_def
        bounded_result_def loaded_pixels_nonneg loaded_pixels_def count_on_nonneg
        build_mask_count_le [unfolded of_nat_mult]
        split: sum.splits option.splits prod.splits)
qed

section \<open>The pool and the collecting loop\<close>

lemma advance_outcomes:
  assumes "list_all2 outcomes Qs ts"
  shows "list_all2 outcomes Qs (snd (advance k (s, ts)))"
proof (cases "k < length ts")
  case False
  then show ?thesis
    using assms by (simp add: advance_def)
next
  case True
  show ?thesis
  proof (cases "ts ! k")
    case (Done r)
    then show ?thesis
      using assms True by (simp add: advance_def)
  next
    case (Step f)
    have "outcomes (Qs ! k) (ts ! k)"
      using assms True by (simp add: list_all2_conv_all_nth)
    then have "outcomes (Qs ! k) (snd (f s))"
      by (simp add: Step)
    then have "list_all2 outcomes (Qs[k := Qs ! k]) (ts[k := snd (f s)])"
      using assms by (intro list_all2_update_cong)
    then show ?thesis
      using True Step by (simp add: advance_def case_prod_beta)
  qed
qed

lemma fold_advance_outcomes:
  "list_all2 outcomes Qs (snd c) \<Longrightarrow> list_all2 outcomes Qs (snd (fold advance sched c))"
proof (induction sched arbitrary: c)
  case Nil
  then show ?case by simp
next
  case (Cons k sched)
  have "list_all2 outcomes Qs (snd (advance k c))"
    using advance_outcomes [OF Cons.prems, of k "fst c"] by simp
  then show ?case
    using Cons.IH by simp
qed

lemma drain_outcomes:
  "list_all2 outcomes Qs ts \<Longrightarrow> list_all2 (\<lambda>Q r. Q r) Qs (snd (drain ts s))"
proof (induction ts arbitrary: Qs s)
  case Nil
  then show ?case by simp
next
  case (Cons t ts)
  from Cons.prems obtain Q Qs' where Qs: "Qs = Q # Qs'" and t: "outcomes Q t"
    and ts: "list_all2 outcomes Qs' ts"
    by (auto simp: list_all2_Cons2)
  have "Q (snd (run t s))"
    using t by (rule outcomes_run)
  moreover have "list_all2 (\<lambda>Q r. Q r) Qs' (snd (drain ts (fst (run t s))))"
    using ts by (rule Cons.IH)
  ultimately show ?case
    by (simp add: Qs case_prod_beta)
qed

lemma run_pool_outcomes:
  assumes "list_all2 outcomes Qs ts"
  shows "list_all2 (\<lambda>Q r. Q r) Qs (snd (run_pool sched ts s))"
proof -
  have "list_all2 outcomes Qs (snd (fold advance sched (s, ts)))"
    using assms by (intro fold_advance_outcomes) simp
  then show ?thesis
    by (simp add: run_pool_def case_prod_beta drain_outcomes)
qed

lemma pool_results_bounded:
  "list_all2 (bounded_result env) paths
     (snd (run_pool sched (map (\<lambda>p. process_image env p d) paths) s))"
proof -
  have "list_all2 outcomes (map (bounded_result env) paths)
      (map (\<lambda>p. process_image env p d) paths)"
    by (simp add: list_all2_map1 list_all2_map2 list.rel_refl process_image_outcomes)
  from run_pool_outcomes [OF this] show ?thesis
    by (simp add: list_all2_map1)
qed

lemma collect_total:
  assumes "\<forall>k \<in> set order. k < length rs" and "\<forall>r \<in> set rs. \<exists>v. r = Inr v"
  shows "\<exists>s'. collect rs order t s = (s', Inr (t + (\<Sum>k\<leftarrow>order. count_of (rs ! k))))"
  using assms(1)
proof (induction order arbitrary: t s)
  case Nil
  then show ?case by simp
next
  case (Cons k ks)
  then have "rs ! k \<in> set rs"
    by simp
  with assms(2) obtain n f where r: "rs ! k = Inr (n, f)"
    by fastforce
  let ?s = "if truthy f then log_line (Info_saved (the f)) s else s"
  from Cons.IH [of "t + n" ?s] Cons.prems
  obtain s' where "collect rs ks (t + n) ?s = (s', Inr (t + n + (\<Sum>k\<leftarrow>ks. count_of (rs ! k))))"
    by auto
  then show ?case
    by (simp add: r count_of_def add.assoc)
qed

lemma sum_list_permuted:
  fixes g :: "'a \<Rightarrow> int"
  assumes "mset order = mset [0..<length rs]"
  shows "(\<Sum>k\<leftarrow>order. g (rs ! k)) = (\<Sum>r\<leftarrow>rs. g r)"
proof -
  have "(\<Sum>k\<leftarrow>order. g (rs ! k)) = sum_mset (image_mset (\<lambda>k. g (rs ! k)) (mset order))"
    by (simp add: sum_mset_sum_list [symmetric] del: sum_mset_sum_list)
  also have "\<dots> = sum_mset (image_mset (\<lambda>k. g (rs ! k)) (mset [0..<length rs]))"
    by (simp only: assms)
  also have "\<dots> = (\<Sum>k\<leftarrow>[0..<length rs]. g (rs ! k))"
    by (simp add: sum_mset_sum_list [symmetric] del: sum_mset_sum_list)
  also have "\<dots> = (\<Sum>r\<leftarrow>rs. g r)"
  proof -
    have "map (\<lambda>k. g (rs ! k)) [0..<length rs] = map g rs"
      by (rule nth_equalityI) simp_all
    then show ?thesis
      by simp
  qed
  finally show ?thesis .
qed

lemma bounded_result_returns: "bounded_result env p r \<Longrightarrow> \<exists>v. r = Inr v"
  by (cases r) (simp_all add: bounded_result_def)

lemma bounded_result_count:
  "bounded_result env p r \<Longrightarrow> 0 \<le> count_of r \<and> count_of r \<le> loaded_pixels env p"
  by (cases r) (auto simp: bounded_result_def count_of_def)

lemma batch_total:
  assumes "mset order = mset [0..<length paths]"
  shows "\<exists>s'. process_images_in_parallel env paths d sched order s =
           (s', Inr (\<Sum>r\<leftarrow>snd (run_pool sched (map (\<lambda>p. process_image env p d) paths) s).
                       count_of r))"
proof -
  let ?pool = "run_pool sched (map (\<lambda>p. process_image env p d) paths) s"
  let ?rs = "snd ?pool"
  have bounded: "list_all2 (bounded_result env) paths ?rs"
    by (rule pool_results_bounded)
  then have len: "length ?rs = length paths"
    by (simp add: list_all2_lengthD)
  have returned: "\<forall>r \<in> set ?rs. \<exists>v. r = Inr v"
    using bounded bounded_result_returns
    by (fastforce simp: list_all2_conv_all_nth in_set_conv_nth)
  have "set order = set [0..<length paths]"
    using assms by (rule mset_eq_setD)
  then have range: "\<forall>k \<in> set order. k < length ?rs"
    by (simp add: len)
  from collect_total [OF range returned, of 0 "fst ?pool"]
  obtain s2 where "collect ?rs order 0 (fst ?pool) = (s2, Inr (\<Sum>k\<leftarrow>order. count_of (?rs ! k)))"
    by auto
  moreover have "(\<Sum>k\<leftarrow>order. count_of (?rs ! k)) = (\<Sum>r\<leftarrow>?rs. count_of r)"
    using assms by (intro sum_list_permuted) (simp add: len)
  ultimately show ?thesis
    by (simp add: process_images_in_parallel_def Let_def case_prod_beta)
qed

lemma sum_list_bounds:
  fixes f :: "'b \<Rightarrow> int"
  assumes "list_all2 (\<lambda>p r. 0 \<le> f r \<and> f r \<le> g p) ps rs"
  shows "0 \<le> (\<Sum>r\<leftarrow>rs. f r) \<and> (\<Sum>r\<leftarrow>rs. f r) \<le> (\<Sum>p\<leftarrow>ps. g p)"
  using assms by (induction rule: list_all2_induct) auto

lemma sum_list_all_zero:
  fixes f :: "'b \<Rightarrow> int"
  shows "\<forall>r \<in> set rs. f r = 0 \<Longrightarrow> (\<Sum>r\<leftarrow>rs. f r) = 0"
  by (induction rs) simp_all

lemma pool_counts_bounded:
  "0 \<le> (\<Sum>r\<leftarrow>snd (run_pool sched (map (\<lambda>p. process_image env p d) paths) s). count_of r)
   \<and> (\<Sum>r\<leftarrow>snd (run_pool sched (map (\<lambda>p. process_image env p d) paths) s). count_of r)
       \<le> (\<Sum>p\<leftarrow>paths. loaded_pixels env p)"
proof (rule sum_list_bounds)
  show "list_all2 (\<lambda>p r. 0 \<le> count_of r \<and> count_of r \<le> loaded_pixels env p) paths
      (snd (run_pool sched (map (\<lambda>p. process_image env p d) paths) s))"
    using pool_results_bounded [of env paths sched d s] bounded_result_count
    by (rule list_all2_mono) 
qed

text \<open>
  Claim C6. \<^verbatim>\<open>process_images_in_parallel\<close> always returns a total, and the total is not
  negative: whatever the schedule of the pool and the order of collection, no exception
  leaves the function. For the empty list the total is 0, and it is 0 when every call of
  \<^verbatim>\<open>process_image\<close> has failed, that is, has returned \<open>(0, None)\<close>.
\<close>

theorem batch_returns_nonnegative_total:
  assumes "mset order = mset [0..<length paths]"
  shows "\<exists>s' total. process_images_in_parallel env paths d sched order s = (s', Inr total)
           \<and> 0 \<le> total
           \<and> (paths = [] \<longrightarrow> total = 0)
           \<and> ((\<forall>r \<in> set (snd (run_pool sched (map (\<lambda>p. process_image env p d) paths) s)).
                  r = Inr (0, None)) \<longrightarrow> total = 0)"
proof -
  let ?rs = "snd (run_pool sched (map (\<lambda>p. process_image env p d) paths) s)"
  let ?total = "\<Sum>r\<leftarrow>?rs. count_of r"
  from batch_total [OF assms] obtain s'
    where run: "process_images_in_parallel env paths d sched order s = (s', Inr ?total)"
    by blast
  have nonneg: "0 \<le> ?total"
    using pool_counts_bounded by blast
  have "length ?rs = length paths"
    using pool_results_bounded [of env paths sched d s] by (simp add: list_all2_lengthD)
  then have empty: "paths = [] \<longrightarrow> ?total = 0"
    by auto
  have failed: "(\<forall>r \<in> set ?rs. r = Inr (0, None)) \<longrightarrow> ?total = 0"
  proof
    assume "\<forall>r \<in> set ?rs. r = Inr (0, None)"
    then have "\<forall>r \<in> set ?rs. count_of r = 0"
      by (auto simp: count_of_def)
    then show "?total = 0"
      by (rule sum_list_all_zero)
  qed
  from run nonneg empty failed show ?thesis
    by blast
qed

text \<open>
  Claim C10. The count that \<^verbatim>\<open>process_image\<close> returns for a loaded image lies between 0
  and height times width of that image; and the total of a batch is at most the sum, over
  the paths of the batch, of the number of pixel positions of the image loaded from each
  (0 for a path from which none is loaded).
\<close>

theorem counts_bounded_by_pixel_positions:
  "(imread env p = Inr (Some im) \<and> run (process_image env p d) s = (s', r) \<longrightarrow>
      (\<exists>n f. r = Inr (n, f) \<and> 0 \<le> n \<and> n \<le> int (height im * width im)))
   \<and> (mset order = mset [0..<length paths] \<longrightarrow>
      (\<exists>s'' total. process_images_in_parallel env paths d sched order s = (s'', Inr total)
         \<and> total \<le> (\<Sum>p\<leftarrow>paths. loaded_pixels env p)))"
proof (intro conjI impI)
  assume a: "imread env p = Inr (Some im) \<and> run (process_image env p d) s = (s', r)"
  have "bounded_result env p (snd (run (process_image env p d) s))"
    using process_image_outcomes by (rule outcomes_run)
  then have "bounded_result env p r"
    using a by simp
  then show "\<exists>n f. r = Inr (n, f) \<and> 0 \<le> n \<and> n \<le> int (height im * width im)"
    using a by (cases r) (auto simp: bounded_result_def loaded_pixels_def)
next
  assume "mset order = mset [0..<length paths]"
  from batch_total [OF this] pool_counts_bounded
  show "\<exists>s'' total. process_images_in_parallel env paths d sched order s = (s'', Inr total)
         \<and> total \<le> (\<Sum>p\<leftarrow>paths. loaded_pixels env p)"
    by blast
qed

theorem batch_returns_nonnegative_total_witness:
  "mset [1, 0 :: nat] = mset [0..<length [''notes.txt'', ''missing.png'']]
   \<and> set (snd (run_pool [0, 1, 0]
               (map (\<lambda>p. process_image demo_env p ''outputs'') [''notes.txt'', ''missing.png''])
               empty_state)) = {Inr (0, None)}
   \<and> snd (process_images_in_parallel demo_env [''notes.txt'', ''missing.png''] ''outputs''
            [0, 1, 0] [1, 0] empty_state) = Inr 0
   \<and> mset ([] :: nat list) = mset [0..<length ([] :: string list)]
   \<and> snd (process_images_in_parallel demo_env [] ''outputs'' [0] [] empty_state) = Inr 0"
proof -
  have perm: "mset [1, 0 :: nat] = mset [0..<length [''notes.txt'', ''missing.png'']]"
    by code_simp
  have results: "snd (run_pool [0, 1, 0]
      (map (\<lambda>p. process_image demo_env p ''outputs'') [''notes.txt'', ''missing.png''])
      empty_state) = [Inr (0, None), Inr (0, None)]"
    by code_simp
  from batch_returns_nonnegative_total [OF perm, of demo_env "''outputs''" "[0, 1, 0]" empty_state]
  obtain s' total
    where "process_images_in_parallel demo_env [''notes.txt'', ''missing.png''] ''outputs''
             [0, 1, 0] [1, 0] empty_state = (s', Inr total)"
      and "(\<forall>r \<in> set (snd (run_pool [0, 1, 0]
               (map (\<lambda>p. process_image demo_env p ''outputs'') [''notes.txt'', ''missing.png''])
               empty_state)). r = Inr (0, None)) \<longrightarrow> total = 0"
    by blast
  note run = this(1) and imp = this(2)
  have every: "\<forall>r \<in> set (snd (run_pool [0, 1, 0]
      (map (\<lambda>p. process_image demo_env p ''outputs'') [''notes.txt'', ''missing.png''])
      empty_state)). r = Inr (0, None)"
    unfolding results by simp
  have only: "set (snd (run_pool [0, 1, 0]
      (map (\<lambda>p. process_image demo_env p ''outputs'') [''notes.txt'', ''missing.png''])
      empty_state)) = {Inr (0, None)}"
    unfolding results by simp
  from imp every have "total = 0"
    by (rule mp)
  with run have failed: "snd (process_images_in_parallel demo_env [''notes.txt'', ''missing.png'']
      ''outputs'' [0, 1, 0] [1, 0] empty_state) = Inr 0"
    by (simp only: snd_conv)
  have perm0: "mset ([] :: nat list) = mset [0..<length ([] :: string list)]"
    by simp
  from batch_returns_nonnegative_total [OF perm0, of demo_env "''outputs''" "[0]" empty_state]
  obtain s0 total0
    where "process_images_in_parallel demo_env [] ''outputs'' [0] [] empty_state
             = (s0, Inr total0)"
      and "([] :: string list) = [] \<longrightarrow> total0 = 0"
    by blast
  then have empty: "snd (process_images_in_parallel demo_env [] ''outputs'' [0] [] empty_state)
      = Inr 0"
    by simp
  from perm only failed perm0 empty show ?thesis
    by (intro conjI)
qed

theorem counts_bounded_by_pixel_positions_witness:
  "imread demo_env ''sample.png'' = Inr (Some sample_image)
   \<and> run (process_image demo_env ''sample.png'' ''outputs'') empty_state
        = (\<lparr>fs = [''outputs/sample_mask.png'', ''outputs''],
            logged = [Info_mask_pixels ''sample.png'' 2]\<rparr>,
           Inr (2, Some ''outputs/sample_mask.png''))
   \<and> (2 :: int) \<le> int (height sample_image * width sample_image)
   \<and> mset [1, 0 :: nat] = mset [0..<length [''a.png'', ''sample.png'']]
   \<and> (\<exists>s'' total.
         process_images_in_parallel demo_env [''a.png'', ''sample.png''] ''outputs''
           [0, 1, 1, 0] [1, 0] empty_state = (s'', Inr total)
         \<and> total \<le> 5)"
proof -
  note single = counts_bounded_by_pixel_positions [THEN conjunct1, rule_format]
  note batch = counts_bounded_by_pixel_positions [THEN conjunct2, rule_format]
  have load: "imread demo_env ''sample.png'' = Inr (Some sample_image)"
    by (simp add: demo_simps)
  from single [OF conjI [OF load run_sample]]
  have one: "(2 :: int) \<le> int (height sample_image * width sample_image)"
    by simp
  have perm: "mset [1, 0 :: nat] = mset [0..<length [''a.png'', ''sample.png'']]"
    by code_simp
  have pixels: "(\<Sum>p\<leftarrow>[''a.png'', ''sample.png'']. loaded_pixels demo_env p) = 5"
    by code_simp
  from batch [OF perm, of demo_env "''outputs''" "[0, 1, 1, 0]" empty_state]
  have many: "\<exists>s'' total.
         process_images_in_parallel demo_env [''a.png'', ''sample.png''] ''outputs''
           [0, 1, 1, 0] [1, 0] empty_state = (s'', Inr total)
         \<and> total \<le> 5"
    by (simp only: pixels)
  from load run_sample one perm many show ?thesis
    by (intro conjI)
qed

text \<open>
  Claim C3 does not hold of the code. Two images of one white pixel each are submitted and
  the output directory does not exist. Processed alone, each call returns the count 1.
  In the pool, with the schedule in which both workers test \<^verbatim>\<open>os.path.exists\<close> before
  either calls \<^verbatim>\<open>os.makedirs\<close>, the second \<^verbatim>\<open>os.makedirs\<close> raises
  \<^verbatim>\<open>FileExistsError\<close>, that call returns \<open>(0, None)\<close>, and the total is 1, not 2. With
  the schedule that runs the calls one after the other the total is 2.
\<close>

theorem batch_total_depends_on_schedule:
  "process_images_in_parallel demo_env [''a.png'', ''b.png''] ''outputs''
       [0, 1, 0, 1, 0, 1] [0, 1] empty_state
     = (\<lparr>fs = [''outputs/a_mask.png'', ''outputs''],
         logged = [Info_mask_pixels ''a.png'' 1, Error_processing ''b.png'' FileExistsError,
                   Info_saved ''outputs/a_mask.png'', Info_total 1]\<rparr>,
        Inr 1)
   \<and> snd (run (process_image demo_env ''a.png'' ''outputs'') empty_state)
        = Inr (1, Some ''outputs/a_mask.png'')
   \<and> snd (run (process_image demo_env ''b.png'' ''outputs'') empty_state)
        = Inr (1, Some ''outputs/b_mask.png'')
   \<and> snd (process_images_in_parallel demo_env [''a.png'', ''b.png''] ''outputs''
            [] [0, 1] empty_state) = Inr 2"
  by code_simp

section \<open>The selection of input files\<close>

lemma char_eq_code: "c = d \<longleftrightarrow> (of_char c :: nat) = of_char d"
  by simp

lemma lower_char_g: "lower_char c = CHR ''g'' \<longleftrightarrow> c = CHR ''g'' \<or> c = CHR ''G''"
proof -
  define n where "n = (of_char c :: nat)"
  have n: "n < 256"
    by (simp add: n_def)
  have small: "c = CHR ''g'' \<longleftrightarrow> n = 103"
    by (simp add: char_eq_code [of c] n_def)
  have capital: "c = CHR ''G'' \<longleftrightarrow> n = 71"
    by (simp add: char_eq_code [of c] n_def)
  have shifted: "char_of (n + 32) = CHR ''g'' \<longleftrightarrow> (n + 32) mod 256 = 103"
    by (simp add: char_eq_code [of "char_of (n + 32)"])
  have unfold: "lower_char c =
      (if (65 \<le> n \<and> n \<le> 90) \<or> (192 \<le> n \<and> n \<le> 222 \<and> n \<noteq> 215)
       then char_of (n + 32) else c)"
    by (simp add: lower_char_def Let_def n_def)
  show ?thesis
  proof (cases "(65 \<le> n \<and> n \<le> 90) \<or> (192 \<le> n \<and> n \<le> 222 \<and> n \<noteq> 215)")
    case True
    then have "lower_char c = char_of (n + 32)"
      by (simp only: unfold if_True)
    moreover have "(n + 32) mod 256 = 103 \<longleftrightarrow> n = 71"
      using True n by auto
    moreover have "n \<noteq> 103"
      using True by auto
    ultimately show ?thesis
      by (simp add: shifted small capital)
  next
    case False
    then have "lower_char c = c"
      by (simp only: unfold if_False)
    moreover have "n \<noteq> 71"
      using False by auto
    ultimately show ?thesis
      by (simp add: small capital)
  qed
qed

lemma endswith_g: "endswith s ''g'' \<longleftrightarrow> s \<noteq> [] \<and> last s = CHR ''g''"
proof (cases s rule: rev_cases)
  case Nil
  then show ?thesis by (simp add: endswith_def)
next
  case (snoc xs x)
  then show ?thesis by (simp add: endswith_def)
qed

lemma selected: "endswith (lower f) ''g'' \<longleftrightarrow> f \<noteq> [] \<and> (last f = CHR ''g'' \<or> last f = CHR ''G'')"
  by (auto simp: endswith_g lower_def last_map lower_char_g)

text \<open>
  Claim C9. The input files are the directory entries whose name is not empty and ends in
  the letter g, small or capital, each joined to the directory; names ending in
  \<^verbatim>\<open>.jpg\<close>, \<^verbatim>\<open>.jpeg\<close> or \<^verbatim>\<open>.png\<close> are among them, and so is any other name ending in g.
\<close>

theorem image_paths_are_names_ending_in_g:
  "image_paths join image_dir entries
     = map (join image_dir)
         (filter (\<lambda>f. f \<noteq> [] \<and> (last f = CHR ''g'' \<or> last f = CHR ''G'')) entries)"
  unfolding image_paths_def by (induction entries) (simp_all add: selected)

theorem image_paths_are_names_ending_in_g_witness:
  "image_paths posix_join ''Online-test''
     [''a.jpg'', ''b.PNG'', ''notes.txt'', ''dog'', [], ''x.jpeg'', ''BIG'']
   = [''Online-test/a.jpg'', ''Online-test/b.PNG'', ''Online-test/dog'',
      ''Online-test/x.jpeg'', ''Online-test/BIG'']"
  using image_paths_are_names_ending_in_g
    [of posix_join "''Online-test''"
      "[''a.jpg'', ''b.PNG'', ''notes.txt'', ''dog'', [], ''x.jpeg'', ''BIG'']"]
  by (simp add: posix_join_def)

section \<open>The name of the mask file\<close>

lemma str_split_not_empty: "str_split c s \<noteq> []"
  by (induction s) (simp_all split: list.splits)

text \<open>
  Claim C5 does not hold of the code. The directory part is removed only up to the last
  backslash, and the name is cut at its first dot, not at its extension. For the path
  \<^verbatim>\<open>Online-test/photo.jpg\<close>, which is what the main block builds where the separator is
  the slash, the file name keeps the directory and the result lies below the output
  directory, in \<^verbatim>\<open>outputs/Online-test\<close>. For a name with two dots, \<^verbatim>\<open>photo.v2.jpg\<close>, the
  result is \<^verbatim>\<open>photo_mask.png\<close>, whatever \<^verbatim>\<open>os.path.join\<close> is.
\<close>

theorem mask_filename_keeps_slash_directory_and_cuts_at_first_dot:
  "mask_filename posix_join ''outputs'' ''Online-test/photo.jpg''
     = ''outputs/Online-test/photo_mask.png''
   \<and> mask_filename join ''outputs'' (''Online-test'' @ [CHR 0x5C] @ ''photo.v2.jpg'')
     = join ''outputs'' ''photo_mask.png''"
  by (simp add: mask_filename_def posix_join_def)

end
